theory Spec2Isabelle
  imports Complex_Main "HOL-Library.Product_Lexorder"
begin

section \<open>Calendar ICS Splitter: the record model\<close>

text \<open>
  The program (\<^verbatim>\<open>calsplit.py\<close>) reads one iCalendar file, sorts its VEVENT components by
  a date key and writes them back in size-bounded batches. Parsing and serialisation are
  done by the third-party \<^verbatim>\<open>icalendar\<close> package; they enter the model as the parameters
  \<open>from_ical\<close> and \<open>to_ical\<close>, so every general theorem below holds for any parser and any
  serialiser.

  A naive point in time is a date (year, month, day) followed by a time of day (hour,
  minute, second, microsecond). The lexicographic order on these tuples is the order in
  which Python compares naive \<^verbatim>\<open>datetime\<close> objects.
\<close>

type_synonym date = "nat \<times> nat \<times> nat"
type_synonym time_of_day = "nat \<times> nat \<times> nat \<times> nat"
type_synonym datetime = "date \<times> time_of_day"

text \<open>
  The \<^verbatim>\<open>.dt\<close> payload of a date-typed property: a \<^verbatim>\<open>datetime\<close> (wall-clock reading and
  an optional \<^verbatim>\<open>tzinfo\<close>), a plain \<^verbatim>\<open>date\<close>, or a \<^verbatim>\<open>timedelta\<close> (seconds), which is
  neither. A property value either carries such a payload or is free text, which has no
  \<^verbatim>\<open>.dt\<close> attribute at all.
\<close>

datatype dt_value =
    DateTime datetime "string option"
  | Date date
  | Timedelta int

datatype propval =
    vDDDTypes dt_value
  | vText string

text \<open>
  A component has a name (\<^verbatim>\<open>VCALENDAR\<close>, \<^verbatim>\<open>VEVENT\<close>, \<^verbatim>\<open>VALARM\<close>, ...), an ordered
  mapping from property names to values, and an ordered list of subcomponents.
\<close>

datatype component =
  Component (name: string) (props: "(string \<times> propval) list") (subcomponents: "component list")

datatype error =
    InputNotFound
  | MalformedDocument string
  | AttributeError
  | TypeError
  | ValueError
  | OverflowError

datatype outcome = NoEventsFound | Completed

definition contains :: "component \<Rightarrow> string \<Rightarrow> bool" where
  \<comment> \<open>\<^verbatim>\<open>key in component\<close>\<close>
  "contains c key = (map_of (props c) key \<noteq> None)"

fun walk :: "component \<Rightarrow> component list" where
  \<comment> \<open>\<^verbatim>\<open>Component.walk()\<close>: the component itself, then its subcomponents, depth first.\<close>
  "walk (Component n ps subs) = Component n ps subs # concat (map walk subs)"

section \<open>The date extractor\<close>

definition time_min :: time_of_day where
  \<comment> \<open>\<^verbatim>\<open>datetime.min.time()\<close>, midnight\<close>
  "time_min = (0, 0, 0, 0)"

definition datetime_min :: datetime where
  \<comment> \<open>\<^verbatim>\<open>datetime.min\<close>, 0001-01-01 00:00:00\<close>
  "datetime_min = ((1, 1, 1), time_min)"

definition date_of_payload :: "propval \<Rightarrow> error + datetime" where
  \<comment> \<open>Lines 31 to 39: read \<^verbatim>\<open>.dt\<close>; a datetime is returned with its \<^verbatim>\<open>tzinfo\<close> replaced by
      None, a date is combined with midnight. Free text has no \<^verbatim>\<open>.dt\<close>, and
      \<^verbatim>\<open>datetime.combine\<close> rejects a timedelta.\<close>
  "date_of_payload v =
     (case v of
        vText s \<Rightarrow> Inl AttributeError
      | vDDDTypes dt \<Rightarrow>
          (case dt of
             DateTime wall tzinfo \<Rightarrow> Inr wall
           | Date d \<Rightarrow> Inr (d, time_min)
           | Timedelta s \<Rightarrow> Inl TypeError))"

fun first_date_field :: "string list \<Rightarrow> component \<Rightarrow> error + datetime" where
  \<comment> \<open>The \<^verbatim>\<open>for date_field in [...]\<close> loop of \<^verbatim>\<open>get_event_date\<close>.\<close>
  "first_date_field [] event = Inr datetime_min"
| "first_date_field (date_field # rest) event =
     (if contains event date_field
      then date_of_payload (the (map_of (props event) date_field))
      else first_date_field rest event)"

definition get_event_date :: "component \<Rightarrow> error + datetime" where
  "get_event_date event = first_date_field [''DTSTART'', ''DTSTAMP'', ''CREATED''] event"

section \<open>Sorting\<close>

fun collect_keys :: "component list \<Rightarrow> error + (datetime \<times> component) list" where
  \<comment> \<open>\<^verbatim>\<open>list.sort(key=...)\<close> first computes the key of every element, in order; the first
      exception aborts the sort.\<close>
  "collect_keys [] = Inr []"
| "collect_keys (e # es) =
     (case get_event_date e of
        Inl err \<Rightarrow> Inl err
      | Inr k \<Rightarrow>
          (case collect_keys es of
             Inl err \<Rightarrow> Inl err
           | Inr kes \<Rightarrow> Inr ((k, e) # kes)))"

definition sort_events :: "component list \<Rightarrow> error + component list" where
  \<comment> \<open>\<^verbatim>\<open>events.sort(key=get_event_date)\<close>: a stable sort on the precomputed keys.\<close>
  "sort_events events =
     (case collect_keys events of
        Inl err \<Rightarrow> Inl err
      | Inr kes \<Rightarrow> Inr (map snd (sort_key fst kes)))"

section \<open>File names\<close>

fun rfind :: "char \<Rightarrow> string \<Rightarrow> int" where
  \<comment> \<open>\<^verbatim>\<open>str.rfind\<close>: the highest index of the character, or -1.\<close>
  "rfind c [] = - 1"
| "rfind c (x # xs) =
     (let r = rfind c xs in if 0 \<le> r then r + 1 else if x = c then 0 else - 1)"

definition splitext :: "string \<Rightarrow> string \<times> string" where
  \<comment> \<open>\<^verbatim>\<open>os.path.splitext\<close> on POSIX: split at the last dot of the last path component,
      unless that component has nothing but dots before it.\<close>
  "splitext p =
     (let sepIndex = rfind (CHR ''/'') p;
          dotIndex = rfind (CHR ''.'') p
      in if dotIndex > sepIndex \<and>
            list_ex (\<lambda>c. c \<noteq> CHR ''.'')
              (take (nat (dotIndex - (sepIndex + 1))) (drop (nat (sepIndex + 1)) p))
         then (take (nat dotIndex) p, drop (nat dotIndex) p)
         else (p, []))"

fun str_nat :: "nat \<Rightarrow> string" where
  \<comment> \<open>Decimal formatting of the part counter in the f-string.\<close>
  "str_nat n =
     (if n < 10 then [''0123456789'' ! n]
      else str_nat (n div 10) @ [''0123456789'' ! (n mod 10)])"

definition output_name :: "string \<Rightarrow> nat \<Rightarrow> string" where
  \<comment> \<open>\<^verbatim>\<open>f"{base_name}_part{file_counter}.ics"\<close>\<close>
  "output_name base_name file_counter = base_name @ ''_part'' @ str_nat file_counter @ ''.ics''"

section \<open>The batch splitter\<close>

text \<open>
  The size limit is a Python \<^verbatim>\<open>float\<close>: a finite double, taken as the real number it
  denotes, an infinity, or not-a-number.
\<close>

datatype pyfloat = Finite real | PosInf | NegInf | NaN

definition py_int :: "real \<Rightarrow> int" where
  \<comment> \<open>\<^verbatim>\<open>int(x)\<close> truncates towards zero.\<close>
  "py_int x = (if 0 \<le> x then \<lfloor>x\<rfloor> else \<lceil>x\<rceil>)"

definition limit_bytes :: "real \<Rightarrow> real" where
  \<comment> \<open>The configured limit in bytes.\<close>
  "limit_bytes max_size_mb = max_size_mb * 1024 * 1024"

definition max_size_of :: "pyfloat \<Rightarrow> error + int" where
  \<comment> \<open>Line 48, \<^verbatim>\<open>int(max_size_mb * 1024 * 1024 * 0.95)\<close>. \<^verbatim>\<open>int\<close> raises ValueError on
      not-a-number and OverflowError on an infinity. The two multiplications by 1024 are
      exact in a double until the product leaves its range (magnitude \<open>2 ^ 1024\<close> or more) and
      becomes an infinity. Within the range the product is taken as exact.\<close>
  "max_size_of max_size_mb =
     (case max_size_mb of
        NaN \<Rightarrow> Inl ValueError
      | PosInf \<Rightarrow> Inl OverflowError
      | NegInf \<Rightarrow> Inl OverflowError
      | Finite x \<Rightarrow>
          if 2 ^ 1024 \<le> \<bar>x\<bar> * 1024 * 1024 then Inl OverflowError
          else Inr (py_int (x * 1024 * 1024 * 0.95)))"

definition cal_properties_of :: "component \<Rightarrow> (string \<times> propval) list" where
  \<comment> \<open>Lines 64 to 67: the replicated top-level properties, in insertion order.\<close>
  "cal_properties_of cal =
     concat (map (\<lambda>attr. if contains cal attr then [(attr, the (map_of (props cal) attr))] else [])
       [''VERSION'', ''PRODID'', ''CALSCALE'', ''METHOD''])"

definition add :: "component \<Rightarrow> string \<times> propval \<Rightarrow> component" where
  \<comment> \<open>\<^verbatim>\<open>Component.add(name, value)\<close> for a name the component does not hold yet.\<close>
  "add c kv = Component (name c) (props c @ [kv]) (subcomponents c)"

definition add_component :: "component \<Rightarrow> component \<Rightarrow> component" where
  "add_component c e = Component (name c) (props c) (subcomponents c @ [e])"

definition create_calendar_with_events ::
  "(string \<times> propval) list \<Rightarrow> component list \<Rightarrow> component" where
  "create_calendar_with_events cal_properties event_list =
     (let new_cal = Component ''VCALENDAR'' [] [];
          new_cal = fold (\<lambda>kv c. add c kv) cal_properties new_cal;
          new_cal = fold (\<lambda>e c. add_component c e) event_list new_cal
      in new_cal)"

text \<open>
  The state of the loop. \<open>fs\<close> is the file system, a map from paths to contents;
  \<open>created\<close> records, in the order of writing, the name of every file written together
  with the calendar document whose serialisation went into it.

  Three points of the embedding. The test \<^verbatim>\<open>event == events[-1]\<close> of line 91 is equality of
  components, which in Python are mappings and compare by content; it is the equality of
  \<open>component\<close> values here. Opening an output file for writing is taken to succeed, so a
  write failure of the operating system has no branch. The progress messages on standard
  output are left out; the two ways the function returns are told apart by \<open>outcome\<close>.
\<close>

record loop_state =
  current_events :: "component list"
  file_counter :: nat
  fs :: "string \<rightharpoonup> string"
  created :: "(string \<times> component) list"

definition write_file ::
  "(component \<Rightarrow> string) \<Rightarrow> string \<Rightarrow> component \<Rightarrow> loop_state \<Rightarrow> loop_state" where
  \<comment> \<open>\<^verbatim>\<open>with open(output_file, 'wb') as f: f.write(cal.to_ical())\<close>\<close>
  "write_file to_ical output_file doc st =
     st\<lparr>fs := (fs st)(output_file \<mapsto> to_ical doc),
        created := created st @ [(output_file, doc)]\<rparr>"

definition process_event ::
  "(component \<Rightarrow> string) \<Rightarrow> (string \<times> propval) list \<Rightarrow> string \<Rightarrow> int \<Rightarrow>
   component list \<Rightarrow> component \<Rightarrow> loop_state \<Rightarrow> loop_state" where
  \<comment> \<open>One iteration of the loop of lines 84 to 111. The second size test (line 106) reads
      the length of the batch after the \<^verbatim>\<open>pop\<close> of line 94.\<close>
  "process_event to_ical cal_properties base_name max_size events event st =
     (let batch = current_events st @ [event];
          test_cal = create_calendar_with_events cal_properties batch;
          current_size = int (length (to_ical test_cal))
      in if current_size \<ge> max_size \<or> event = last events then
           let popped = (current_size \<ge> max_size \<and> length batch > 1);
               batch' = (if popped then butlast batch else batch);
               test_cal' = (if popped then create_calendar_with_events cal_properties batch'
                            else test_cal);
               output_file = output_name base_name (file_counter st);
               st' = write_file to_ical output_file test_cal' st
           in st'\<lparr>current_events :=
                    (if current_size \<ge> max_size \<and> length batch' > 1 then [event] else []),
                  file_counter := file_counter st + 1\<rparr>
         else st\<lparr>current_events := batch\<rparr>)"

definition flush_remaining ::
  "(component \<Rightarrow> string) \<Rightarrow> (string \<times> propval) list \<Rightarrow> string \<Rightarrow> loop_state \<Rightarrow> loop_state" where
  \<comment> \<open>Lines 113 to 122.\<close>
  "flush_remaining to_ical cal_properties base_name st =
     (if current_events st \<noteq> [] then
        write_file to_ical (output_name base_name (file_counter st))
          (create_calendar_with_events cal_properties (current_events st)) st
      else st)"

definition split_events ::
  "(component \<Rightarrow> string) \<Rightarrow> (string \<times> propval) list \<Rightarrow> string \<Rightarrow> int \<Rightarrow>
   component list \<Rightarrow> (string \<rightharpoonup> string) \<Rightarrow> loop_state" where
  \<comment> \<open>Lines 78 to 122 on the sorted events.\<close>
  "split_events to_ical cal_properties base_name max_size events files =
     flush_remaining to_ical cal_properties base_name
       (fold (process_event to_ical cal_properties base_name max_size events) events
          \<lparr>current_events = [], file_counter = 1, fs = files, created = []\<rparr>)"

record run =
  result :: "error + outcome"
  disk :: "string \<rightharpoonup> string"
  files_created :: "(string \<times> component) list"

definition split_calendar ::
  "(component \<Rightarrow> string) \<Rightarrow> string \<Rightarrow> int \<Rightarrow> component \<Rightarrow> (string \<rightharpoonup> string) \<Rightarrow> run" where
  \<comment> \<open>Lines 55 to 122, on the parsed calendar and the effective limit of line 48.\<close>
  "split_calendar to_ical input_file max_size cal files =
     (let events = filter (\<lambda>comp. name comp = ''VEVENT'') (walk cal)
      in if events = [] then \<lparr>result = Inr NoEventsFound, disk = files, files_created = []\<rparr>
         else
           (case sort_events events of
              Inl err \<Rightarrow> \<lparr>result = Inl err, disk = files, files_created = []\<rparr>
            | Inr sorted_events \<Rightarrow>
                (let st = split_events to_ical (cal_properties_of cal)
                            (fst (splitext input_file)) max_size
                            sorted_events files
                 in \<lparr>result = Inr Completed, disk = fs st, files_created = created st\<rparr>)))"

definition split_ics_file ::
  "(string \<Rightarrow> error + component) \<Rightarrow> (component \<Rightarrow> string) \<Rightarrow> string \<Rightarrow> pyfloat \<Rightarrow>
   (string \<rightharpoonup> string) \<Rightarrow> run" where
  \<comment> \<open>\<^verbatim>\<open>split_ics_file(input_file, max_size_mb)\<close> run on the file system \<open>files\<close>. The
      effective limit is computed first (line 48), before the input file is opened.\<close>
  "split_ics_file from_ical to_ical input_file max_size_mb files =
     (case max_size_of max_size_mb of
        Inl err \<Rightarrow> \<lparr>result = Inl err, disk = files, files_created = []\<rparr>
      | Inr max_size \<Rightarrow>
          (case files input_file of
             None \<Rightarrow> \<lparr>result = Inl InputNotFound, disk = files, files_created = []\<rparr>
           | Some bytes \<Rightarrow>
               (case from_ical bytes of
                  Inl err \<Rightarrow> \<lparr>result = Inl err, disk = files, files_created = []\<rparr>
                | Inr cal \<Rightarrow> split_calendar to_ical input_file max_size cal files)))"

section \<open>A reference serialiser\<close>

text \<open>
  The content-line layout of RFC 5545 without folding, escaping or parameters: on short
  ASCII properties it is what \<^verbatim>\<open>Component.to_ical()\<close> emits. It instantiates the parameter
  \<open>to_ical\<close> in the concrete runs below.
\<close>

definition zero_pad :: "nat \<Rightarrow> nat \<Rightarrow> string" where
  "zero_pad width n = replicate (width - length (str_nat n)) (CHR ''0'') @ str_nat n"

definition ical_date :: "date \<Rightarrow> string" where
  "ical_date d = (case d of (y, m, dd) \<Rightarrow> zero_pad 4 y @ zero_pad 2 m @ zero_pad 2 dd)"

definition ical_value :: "propval \<Rightarrow> string" where
  "ical_value v =
     (case v of
        vText s \<Rightarrow> s
      | vDDDTypes dt \<Rightarrow>
          (case dt of
             DateTime wall tzinfo \<Rightarrow>
               (case wall of (d, (h, mi, s, us)) \<Rightarrow>
                  ical_date d @ ''T'' @ zero_pad 2 h @ zero_pad 2 mi @ zero_pad 2 s)
           | Date d \<Rightarrow> ical_date d
           | Timedelta s \<Rightarrow> (if s < 0 then ''-'' else []) @ ''PT'' @ str_nat (nat \<bar>s\<bar>) @ ''S''))"

definition crlf :: string where
  "crlf = [CHR 0x0D, CHR 0x0A]"

definition content_line :: "string \<times> propval \<Rightarrow> string" where
  "content_line kv = fst kv @ '':'' @ ical_value (snd kv) @ crlf"

fun to_ical_plain :: "component \<Rightarrow> string" where
  "to_ical_plain (Component n ps subs) =
     ''BEGIN:'' @ n @ crlf @ concat (map content_line ps) @ concat (map to_ical_plain subs)
     @ ''END:'' @ n @ crlf"

section \<open>Two rules as the specification words them\<close>

definition basename :: "string \<Rightarrow> string" where
  \<comment> \<open>The part of a path after its last separator.\<close>
  "basename p = drop (nat (rfind (CHR ''/'') p + 1)) p"

definition spec_output_name :: "string \<Rightarrow> nat \<Rightarrow> string" where
  \<comment> \<open>The specification's \<^verbatim>\<open><input-base><ext removed>_part<k>.<original-ext>\<close>: directory
      path and extension removed, part counter appended, original extension appended.\<close>
  "spec_output_name input_file k =
     fst (splitext (basename input_file)) @ ''_part'' @ str_nat k @ snd (splitext input_file)"

definition spec_size_bound :: "(component \<Rightarrow> string) \<Rightarrow> real \<Rightarrow> component \<Rightarrow> bool" where
  \<comment> \<open>The specification's size bound on one output document: at most the limit, or exactly
      one event whose own serialisation, the event component by itself, is above the limit.\<close>
  "spec_size_bound to_ical limit doc =
     (real (length (to_ical doc)) \<le> limit \<or>
      (case subcomponents doc of
         [e] \<Rightarrow> limit < real (length (to_ical e))
       | _ \<Rightarrow> False))"

section \<open>Invariants of the loop\<close>

definition batch_ok ::
  "(component \<Rightarrow> string) \<Rightarrow> (string \<times> propval) list \<Rightarrow> int \<Rightarrow> component set \<Rightarrow>
   component list \<Rightarrow> bool" where
  \<comment> \<open>A batch is not empty, holds events of \<open>E\<close> only, and is below the effective limit
      unless it is a single event.\<close>
  "batch_ok to_ical ps max_size E b =
     (b \<noteq> [] \<and> set b \<subseteq> E \<and>
      (int (length (to_ical (create_calendar_with_events ps b))) < max_size \<or> length b = 1))"

definition files_inv ::
  "(component \<Rightarrow> string) \<Rightarrow> (string \<times> propval) list \<Rightarrow> string \<Rightarrow> int \<Rightarrow> component set \<Rightarrow>
   (string \<times> component) list \<Rightarrow> bool" where
  "files_inv to_ical ps base max_size E out =
     ((\<forall>nd \<in> set out.
         snd nd = create_calendar_with_events ps (subcomponents (snd nd)) \<and>
         batch_ok to_ical ps max_size E (subcomponents (snd nd)))
      \<and> map fst out = map (output_name base) [1..<Suc (length out)])"

definition loop_inv ::
  "(component \<Rightarrow> string) \<Rightarrow> (string \<times> propval) list \<Rightarrow> string \<Rightarrow> int \<Rightarrow> component set \<Rightarrow>
   loop_state \<Rightarrow> bool" where
  "loop_inv to_ical ps base max_size E st =
     (files_inv to_ical ps base max_size E (created st)
      \<and> (current_events st = [] \<or> batch_ok to_ical ps max_size E (current_events st))
      \<and> file_counter st = Suc (length (created st)))"

definition same_progress :: "loop_state \<Rightarrow> loop_state \<Rightarrow> bool" where
  \<comment> \<open>Two loop states that differ at most in the file system.\<close>
  "same_progress st1 st2 =
     (current_events st1 = current_events st2 \<and> file_counter st1 = file_counter st2 \<and>
      created st1 = created st2)"

definition untouched :: "(string \<rightharpoonup> string) \<Rightarrow> loop_state \<Rightarrow> bool" where
  \<comment> \<open>Outside the files written so far the file system is the initial one.\<close>
  "untouched files st = (\<forall>n. n \<notin> fst ` set (created st) \<longrightarrow> fs st n = files n)"

section \<open>Sample calendars\<close>

definition ev_a :: component where
  "ev_a = Component ''VEVENT''
     [(''DTSTART'', vDDDTypes (Date (2024, 1, 2))), (''SUMMARY'', vText ''a'')] []"

definition ev_b :: component where
  "ev_b = Component ''VEVENT''
     [(''DTSTART'', vDDDTypes (Date (2024, 1, 1))), (''SUMMARY'', vText ''b'')] []"

definition ev_c :: component where
  "ev_c = Component ''VEVENT''
     [(''DTSTART'', vDDDTypes (Date (2024, 1, 3))), (''SUMMARY'', vText ''c'')] []"

definition three_events_cal :: component where
  "three_events_cal =
     Component ''VCALENDAR'' [(''VERSION'', vText ''2.0'')] [ev_c, ev_a, ev_b]"

definition two_events_cal :: component where
  "two_events_cal = Component ''VCALENDAR'' [(''VERSION'', vText ''2.0'')] [ev_a, ev_b]"

definition twice_cal :: component where
  \<comment> \<open>The same event entered twice.\<close>
  "twice_cal = Component ''VCALENDAR'' [(''VERSION'', vText ''2.0'')] [ev_a, ev_a]"

definition no_events_cal :: component where
  "no_events_cal = Component ''VCALENDAR'' [(''VERSION'', vText ''2.0'')] []"

definition sample_from_ical :: "string \<Rightarrow> error + component" where
  \<comment> \<open>A parser on the sample files: it recognises the serialisations of the sample
      calendars and rejects everything else.\<close>
  "sample_from_ical bytes =
     (if bytes = to_ical_plain three_events_cal then Inr three_events_cal
      else if bytes = to_ical_plain two_events_cal then Inr two_events_cal
      else if bytes = to_ical_plain twice_cal then Inr twice_cal
      else if bytes = to_ical_plain no_events_cal then Inr no_events_cal
      else Inl (MalformedDocument ''Content line could not be parsed into parts''))"

definition sample_files :: "string \<rightharpoonup> string" where
  "sample_files =
     [''cal/three.ics'' \<mapsto> to_ical_plain three_events_cal,
      ''cal/two.txt'' \<mapsto> to_ical_plain two_events_cal,
      ''cal/twice.ics'' \<mapsto> to_ical_plain twice_cal,
      ''cal/none.ics'' \<mapsto> to_ical_plain no_events_cal,
      ''cal/bad.ics'' \<mapsto> ''BEGIN:VCALENDAR'']"

section \<open>Basic facts\<close>

declare str_nat.simps [simp del]

lemmas ser_defs = content_line_def ical_value_def ical_date_def zero_pad_def crlf_def

lemma fold_add: "fold (\<lambda>kv c. add c kv) ps c = Component (name c) (props c @ ps) (subcomponents c)"
  by (induction ps arbitrary: c) (simp_all add: add_def)

lemma fold_add_component:
  "fold (\<lambda>e c. add_component c e) es c = Component (name c) (props c) (subcomponents c @ es)"
  by (induction es arbitrary: c) (simp_all add: add_component_def)

lemma create_calendar_with_events_eq:
  "create_calendar_with_events ps es = Component ''VCALENDAR'' ps es"
  by (simp add: create_calendar_with_events_def fold_add fold_add_component)

lemma collect_keys_Inr: "collect_keys es = Inr kes \<Longrightarrow> map snd kes = es"
  by (induction es arbitrary: kes) (auto split: sum.splits)

lemma sort_events_set: "sort_events es = Inr s \<Longrightarrow> set s = set es"
  by (auto simp: sort_events_def split: sum.splits dest!: collect_keys_Inr)

lemma map_of_cal_properties_of:
  "map_of (cal_properties_of cal) attr =
     (if attr \<in> {''VERSION'', ''PRODID'', ''CALSCALE'', ''METHOD''}
      then map_of (props cal) attr else None)"
  by (auto simp: cal_properties_of_def contains_def)

lemma max_size_of_Inr:
  assumes "max_size_of max_size_mb = Inr max_size"
  obtains x where "max_size_mb = Finite x"
    and "max_size = py_int (x * 1024 * 1024 * 0.95)"
  using assms by (cases max_size_mb) (simp_all add: max_size_of_def split: if_splits)

lemma below_max_size_within_limit:
  assumes "max_size_of (Finite x) = Inr max_size" and "int n < max_size"
  shows "real n \<le> limit_bytes x"
proof -
  let ?x = "x * 1024 * 1024 * 0.95"
  from assms(1) have m: "max_size = py_int ?x"
    by (simp add: max_size_of_def split: if_splits)
  have pos: "0 \<le> ?x"
  proof (rule ccontr)
    assume "\<not> 0 \<le> ?x"
    then have "py_int ?x \<le> 0"
      by (simp add: py_int_def ceiling_le_iff)
    with assms(2) m show False
      by simp
  qed
  then have "int n < \<lfloor>?x\<rfloor>"
    using assms(2) m by (simp add: py_int_def)
  then have "real n \<le> ?x"
    by linarith
  also have "?x \<le> limit_bytes x"
    using pos by (simp add: limit_bytes_def)
  finally show ?thesis .
qed

section \<open>The loop keeps its invariant\<close>

lemma process_event_inv:
  assumes "loop_inv to_ical ps base max_size E st" and "event \<in> E"
  shows "loop_inv to_ical ps base max_size E
           (process_event to_ical ps base max_size events event st)"
  using assms
  unfolding loop_inv_def files_inv_def process_event_def write_file_def Let_def batch_ok_def
  by (auto simp: butlast_append create_calendar_with_events_eq)

lemma fold_process_event_inv:
  "loop_inv to_ical ps base max_size E st \<Longrightarrow> set xs \<subseteq> E \<Longrightarrow>
   loop_inv to_ical ps base max_size E
     (fold (process_event to_ical ps base max_size events) xs st)"
  by (induction xs arbitrary: st) (simp_all add: process_event_inv)

lemma flush_remaining_inv:
  "loop_inv to_ical ps base max_size E st \<Longrightarrow>
   files_inv to_ical ps base max_size E (created (flush_remaining to_ical ps base st))"
  by (cases "current_events st = []")
     (auto simp: loop_inv_def files_inv_def flush_remaining_def write_file_def
        create_calendar_with_events_eq)

lemma split_events_inv:
  "files_inv to_ical ps base max_size (set events)
     (created (split_events to_ical ps base max_size events files))"
  unfolding split_events_def
  by (intro flush_remaining_inv fold_process_event_inv) (simp_all add: loop_inv_def files_inv_def)

lemma split_calendar_inv:
  "files_inv to_ical (cal_properties_of cal) (fst (splitext input_file)) max_size
     {e \<in> set (walk cal). name e = ''VEVENT''}
     (files_created (split_calendar to_ical input_file max_size cal files))"
proof (cases "filter (\<lambda>comp. name comp = ''VEVENT'') (walk cal) = []")
  case True
  then show ?thesis
    by (simp add: split_calendar_def files_inv_def)
next
  case False
  show ?thesis
  proof (cases "sort_events (filter (\<lambda>comp. name comp = ''VEVENT'') (walk cal))")
    case (Inl err)
    with False show ?thesis
      by (simp add: split_calendar_def files_inv_def)
  next
    case (Inr sorted_events)
    then have E: "{e \<in> set (walk cal). name e = ''VEVENT''} = set sorted_events"
      by (auto dest: sort_events_set)
    have eq: "files_created (split_calendar to_ical input_file max_size cal files) =
              created (split_events to_ical (cal_properties_of cal) (fst (splitext input_file))
                         max_size sorted_events files)"
      using False Inr by (simp add: split_calendar_def Let_def)
    show ?thesis
      unfolding eq E by (rule split_events_inv)
  qed
qed

lemma split_ics_file_cases:
  obtains "files_created (split_ics_file from_ical to_ical input_file max_size_mb files) = []"
  | bytes cal max_size where "max_size_of max_size_mb = Inr max_size"
      and "files input_file = Some bytes" and "from_ical bytes = Inr cal"
      and "split_ics_file from_ical to_ical input_file max_size_mb files =
           split_calendar to_ical input_file max_size cal files"
proof (cases "max_size_of max_size_mb")
  case (Inl err)
  then show ?thesis
    using that(1) by (simp add: split_ics_file_def)
next
  case max_size: (Inr max_size)
  show ?thesis
  proof (cases "files input_file")
    case None
    with max_size show ?thesis
      using that(1) by (simp add: split_ics_file_def)
  next
    case (Some bytes)
    show ?thesis
    proof (cases "from_ical bytes")
      case (Inl err)
      with max_size Some show ?thesis
        using that(1) by (simp add: split_ics_file_def)
    next
      case (Inr cal)
      with max_size Some show ?thesis
        using that(2) by (simp add: split_ics_file_def)
    qed
  qed
qed

lemma no_effective_limit_no_files:
  assumes "max_size_of max_size_mb = Inl err"
  shows "split_ics_file from_ical to_ical input_file max_size_mb files =
         \<lparr>result = Inl err, disk = files, files_created = []\<rparr>"
  using assms by (simp add: split_ics_file_def)

section \<open>Runs on the sample files\<close>

lemma split_ics_file_run:
  assumes "max_size_of max_size_mb = Inr max_size"
    and "files input_file = Some bytes"
    and "from_ical bytes = Inr cal"
    and "sort_events (filter (\<lambda>comp. name comp = ''VEVENT'') (walk cal)) = Inr evs"
    and "evs \<noteq> []"
  shows "split_ics_file from_ical to_ical input_file max_size_mb files =
         (let st = split_events to_ical (cal_properties_of cal) (fst (splitext input_file))
                     max_size evs files
          in \<lparr>result = Inr Completed, disk = fs st, files_created = created st\<rparr>)"
proof -
  from assms(4,5) have "filter (\<lambda>comp. name comp = ''VEVENT'') (walk cal) \<noteq> []"
    using sort_events_set by fastforce
  with assms show ?thesis
    by (simp add: split_ics_file_def split_calendar_def)
qed

lemma sample_sizes:
  "length (to_ical_plain (Component ''VCALENDAR'' [(''VERSION'', vText ''2.0'')] [ev_a])) = 100"
  "length (to_ical_plain (Component ''VCALENDAR'' [(''VERSION'', vText ''2.0'')] [ev_b])) = 100"
  "length (to_ical_plain (Component ''VCALENDAR'' [(''VERSION'', vText ''2.0'')] [ev_a, ev_a])) = 155"
  "length (to_ical_plain (Component ''VCALENDAR'' [(''VERSION'', vText ''2.0'')] [ev_b, ev_a])) = 155"
  "length (to_ical_plain (Component ''VCALENDAR'' [(''VERSION'', vText ''2.0'')] [ev_b, ev_a, ev_c])) = 210"
  "length (to_ical_plain (Component ''VCALENDAR'' [(''VERSION'', vText ''2.0'')] [ev_c])) = 100"
  "length (to_ical_plain ev_a) = 55"
  "length (to_ical_plain ev_b) = 55"
  by (simp_all add: ser_defs ev_a_def ev_b_def ev_c_def str_nat.simps)

lemma sample_distinct: "ev_b \<noteq> ev_c" "ev_a \<noteq> ev_c" "ev_b \<noteq> ev_a"
  by (simp_all add: ev_a_def ev_b_def ev_c_def)

lemma sample_max_sizes:
  "max_size_of (Finite 0.000171) = Inr 170"
  "max_size_of (Finite 0.00012) = Inr 119"
  "max_size_of (Finite 1) = Inr 996147"
  "max_size_of (Finite 0.00009) = Inr 89"
  by (simp_all add: max_size_of_def py_int_def)

lemma sample_props:
  "cal_properties_of three_events_cal = [(''VERSION'', vText ''2.0'')]"
  "cal_properties_of two_events_cal = [(''VERSION'', vText ''2.0'')]"
  "cal_properties_of twice_cal = [(''VERSION'', vText ''2.0'')]"
  by (simp_all add: cal_properties_of_def contains_def three_events_cal_def two_events_cal_def
      twice_cal_def)

lemma sample_bases:
  "fst (splitext ''cal/three.ics'') = ''cal/three''"
  "fst (splitext ''cal/two.txt'') = ''cal/two''"
  "fst (splitext ''cal/twice.ics'') = ''cal/twice''"
  by (simp_all add: splitext_def)

lemma sample_sorted:
  "sort_events (filter (\<lambda>comp. name comp = ''VEVENT'') (walk three_events_cal)) =
     Inr [ev_b, ev_a, ev_c]"
  "sort_events (filter (\<lambda>comp. name comp = ''VEVENT'') (walk two_events_cal)) = Inr [ev_b, ev_a]"
  "sort_events (filter (\<lambda>comp. name comp = ''VEVENT'') (walk twice_cal)) = Inr [ev_a, ev_a]"
  by (simp_all add: sort_events_def get_event_date_def contains_def date_of_payload_def
      time_min_def ev_a_def ev_b_def ev_c_def three_events_cal_def two_events_cal_def
      twice_cal_def)

lemma sample_lookup:
  "sample_files ''cal/three.ics'' = Some (to_ical_plain three_events_cal)"
  "sample_files ''cal/two.txt'' = Some (to_ical_plain two_events_cal)"
  "sample_files ''cal/twice.ics'' = Some (to_ical_plain twice_cal)"
  "sample_files ''cal/none.ics'' = Some (to_ical_plain no_events_cal)"
  "sample_files ''cal/bad.ics'' = Some ''BEGIN:VCALENDAR''"
  by (simp_all add: sample_files_def)

lemma sample_parse:
  "sample_from_ical (to_ical_plain three_events_cal) = Inr three_events_cal"
  "sample_from_ical (to_ical_plain two_events_cal) = Inr two_events_cal"
  "sample_from_ical (to_ical_plain twice_cal) = Inr twice_cal"
  "sample_from_ical (to_ical_plain no_events_cal) = Inr no_events_cal"
  "sample_from_ical ''BEGIN:VCALENDAR'' =
     Inl (MalformedDocument ''Content line could not be parsed into parts'')"
  by (simp_all add: sample_from_ical_def ser_defs ev_a_def ev_b_def ev_c_def three_events_cal_def
      two_events_cal_def twice_cal_def no_events_cal_def str_nat.simps)

lemmas loop_defs = split_events_def process_event_def flush_remaining_def write_file_def
  create_calendar_with_events_eq output_name_def str_nat.simps Let_def

lemma three_run:
  "files_created
     (split_ics_file sample_from_ical to_ical_plain ''cal/three.ics'' (Finite 0.000171) sample_files) =
   [(''cal/three_part1.ics'', Component ''VCALENDAR'' [(''VERSION'', vText ''2.0'')] [ev_b, ev_a]),
    (''cal/three_part2.ics'', Component ''VCALENDAR'' [(''VERSION'', vText ''2.0'')] [ev_c])]"
proof -
  have "split_ics_file sample_from_ical to_ical_plain ''cal/three.ics'' (Finite 0.000171) sample_files =
        (let st = split_events to_ical_plain (cal_properties_of three_events_cal)
                    (fst (splitext ''cal/three.ics'')) 170 [ev_b, ev_a, ev_c] sample_files
         in \<lparr>result = Inr Completed, disk = fs st, files_created = created st\<rparr>)"
    by (rule split_ics_file_run [where files = sample_files and input_file = "''cal/three.ics''"
          and from_ical = sample_from_ical,
          OF sample_max_sizes(1) sample_lookup(1) sample_parse(1) sample_sorted(1)]) simp
  then show ?thesis
    unfolding sample_props sample_bases
    by (simp add: loop_defs sample_sizes sample_distinct del: to_ical_plain.simps)
qed

lemma two_run:
  "files_created
     (split_ics_file sample_from_ical to_ical_plain ''cal/two.txt'' (Finite 0.00012) sample_files) =
   [(''cal/two_part1.ics'', Component ''VCALENDAR'' [(''VERSION'', vText ''2.0'')] [ev_b])]"
proof -
  have "split_ics_file sample_from_ical to_ical_plain ''cal/two.txt'' (Finite 0.00012) sample_files =
        (let st = split_events to_ical_plain (cal_properties_of two_events_cal)
                    (fst (splitext ''cal/two.txt'')) 119 [ev_b, ev_a] sample_files
         in \<lparr>result = Inr Completed, disk = fs st, files_created = created st\<rparr>)"
    by (rule split_ics_file_run [where files = sample_files and input_file = "''cal/two.txt''"
          and from_ical = sample_from_ical,
          OF sample_max_sizes(2) sample_lookup(2) sample_parse(2) sample_sorted(2)]) simp
  then show ?thesis
    unfolding sample_props sample_bases
    by (simp add: loop_defs sample_sizes sample_distinct del: to_ical_plain.simps)
qed

lemma two_run_singles:
  "files_created
     (split_ics_file sample_from_ical to_ical_plain ''cal/two.txt'' (Finite 0.00009) sample_files) =
   [(''cal/two_part1.ics'', Component ''VCALENDAR'' [(''VERSION'', vText ''2.0'')] [ev_b]),
    (''cal/two_part2.ics'', Component ''VCALENDAR'' [(''VERSION'', vText ''2.0'')] [ev_a])]"
proof -
  have "split_ics_file sample_from_ical to_ical_plain ''cal/two.txt'' (Finite 0.00009) sample_files =
        (let st = split_events to_ical_plain (cal_properties_of two_events_cal)
                    (fst (splitext ''cal/two.txt'')) 89 [ev_b, ev_a] sample_files
         in \<lparr>result = Inr Completed, disk = fs st, files_created = created st\<rparr>)"
    by (rule split_ics_file_run [where files = sample_files and input_file = "''cal/two.txt''"
          and from_ical = sample_from_ical,
          OF sample_max_sizes(4) sample_lookup(2) sample_parse(2) sample_sorted(2)]) simp
  then show ?thesis
    unfolding sample_props sample_bases
    by (simp add: loop_defs sample_sizes sample_distinct del: to_ical_plain.simps)
qed

lemma twice_run:
  "files_created
     (split_ics_file sample_from_ical to_ical_plain ''cal/twice.ics'' (Finite 1) sample_files) =
   [(''cal/twice_part1.ics'', Component ''VCALENDAR'' [(''VERSION'', vText ''2.0'')] [ev_a]),
    (''cal/twice_part2.ics'', Component ''VCALENDAR'' [(''VERSION'', vText ''2.0'')] [ev_a])]"
proof -
  have "split_ics_file sample_from_ical to_ical_plain ''cal/twice.ics'' (Finite 1) sample_files =
        (let st = split_events to_ical_plain (cal_properties_of twice_cal)
                    (fst (splitext ''cal/twice.ics'')) 996147 [ev_a, ev_a] sample_files
         in \<lparr>result = Inr Completed, disk = fs st, files_created = created st\<rparr>)"
    by (rule split_ics_file_run [where files = sample_files and input_file = "''cal/twice.ics''"
          and from_ical = sample_from_ical,
          OF sample_max_sizes(3) sample_lookup(3) sample_parse(3) sample_sorted(3)]) simp
  then show ?thesis
    unfolding sample_props sample_bases
    by (simp add: loop_defs sample_sizes sample_distinct del: to_ical_plain.simps)
qed

section \<open>Two defects of the loop, for any serialiser\<close>

text \<open>
  Line 106 repeats the test of line 93 after the \<^verbatim>\<open>pop\<close>, when the batch is one shorter.
  When a batch of exactly two events reaches the effective limit, the first is written and
  the second is neither written nor kept.
\<close>

lemma pair_overflow_loses_second:
  assumes "int (length (to_ical (create_calendar_with_events ps [e1]))) < max_size"
    and "max_size \<le> int (length (to_ical (create_calendar_with_events ps [e1, e2])))"
    and "e1 \<noteq> e2"
  shows "created (split_events to_ical ps base max_size [e1, e2] files) =
         [(output_name base 1, create_calendar_with_events ps [e1])]"
  using assms
  by (simp add: split_events_def process_event_def flush_remaining_def write_file_def Let_def)

text \<open>
  Line 91 finds the end of the input by \<^verbatim>\<open>event == events[-1]\<close>. Components are mappings,
  so this is equality of content: an event with the content of the last one is taken for
  the last one wherever it stands, and flushes the batch.
\<close>

lemma duplicate_flushes_early:
  assumes "int (length (to_ical (create_calendar_with_events ps [e]))) < max_size"
  shows "created (process_event to_ical ps base max_size [e, e] e
            \<lparr>current_events = [], file_counter = 1, fs = files, created = []\<rparr>) =
         [(output_name base 1, create_calendar_with_events ps [e])]"
  using assms
  by (simp add: process_event_def write_file_def Let_def)

section \<open>A run depends on its input file only\<close>

lemma process_event_same_progress:
  "same_progress st1 st2 \<Longrightarrow>
   same_progress (process_event to_ical ps base max_size events event st1)
                 (process_event to_ical ps base max_size events event st2)"
  by (simp add: same_progress_def process_event_def write_file_def Let_def)

lemma fold_process_event_same_progress:
  "same_progress st1 st2 \<Longrightarrow>
   same_progress (fold (process_event to_ical ps base max_size events) xs st1)
                 (fold (process_event to_ical ps base max_size events) xs st2)"
  by (induction xs arbitrary: st1 st2) (simp_all add: process_event_same_progress)

lemma flush_remaining_same_progress:
  "same_progress st1 st2 \<Longrightarrow>
   same_progress (flush_remaining to_ical ps base st1) (flush_remaining to_ical ps base st2)"
  by (simp add: same_progress_def flush_remaining_def write_file_def)

lemma split_events_created_any_files:
  "created (split_events to_ical ps base max_size events files1) =
   created (split_events to_ical ps base max_size events files2)"
proof -
  have "same_progress (split_events to_ical ps base max_size events files1)
                      (split_events to_ical ps base max_size events files2)"
    unfolding split_events_def
    by (intro flush_remaining_same_progress fold_process_event_same_progress)
       (simp add: same_progress_def)
  then show ?thesis
    by (simp add: same_progress_def)
qed

lemma split_calendar_any_files:
  "result (split_calendar to_ical input_file max_size cal files1) =
   result (split_calendar to_ical input_file max_size cal files2) \<and>
   files_created (split_calendar to_ical input_file max_size cal files1) =
   files_created (split_calendar to_ical input_file max_size cal files2)"
  using split_events_created_any_files [of to_ical _ _ _ _ files1 files2]
  by (simp add: split_calendar_def Let_def split: sum.splits)

lemma split_ics_file_any_files:
  assumes "files_a input_file = files_b input_file"
  shows "result (split_ics_file from_ical to_ical input_file max_size_mb files_a) =
         result (split_ics_file from_ical to_ical input_file max_size_mb files_b) \<and>
         files_created (split_ics_file from_ical to_ical input_file max_size_mb files_a) =
         files_created (split_ics_file from_ical to_ical input_file max_size_mb files_b)"
  using assms split_calendar_any_files [of to_ical input_file _ _ files_a files_b]
  by (simp add: split_ics_file_def split: option.splits sum.splits)

section \<open>A run leaves its input file alone\<close>

lemma rfind_ge: "- 1 \<le> rfind c p"
  by (induction p) (simp_all add: Let_def)

lemma rfind_index:
  "0 \<le> rfind c p \<Longrightarrow> nat (rfind c p) < length p \<and> p ! nat (rfind c p) = c"
proof (induction p)
  case Nil
  then show ?case by simp
next
  case (Cons x xs)
  show ?case
  proof (cases "0 \<le> rfind c xs")
    case True
    with Cons.IH have "nat (rfind c xs) < length xs" and "xs ! nat (rfind c xs) = c"
      by simp_all
    moreover from True have "nat (rfind c xs + 1) = Suc (nat (rfind c xs))"
      by simp
    moreover from True have "rfind c (x # xs) = rfind c xs + 1"
      by (simp add: Let_def)
    ultimately show ?thesis
      by simp
  next
    case False
    with Cons.prems have "rfind c (x # xs) = 0" and "x = c"
      by (simp_all add: Let_def split: if_splits)
    then show ?thesis
      by simp
  qed
qed

lemma splitext_parts:
  "fst (splitext p) @ snd (splitext p) = p \<and>
   (snd (splitext p) = [] \<or> hd (snd (splitext p)) = CHR ''.'')"
proof (cases "rfind (CHR ''.'') p > rfind (CHR ''/'') p \<and>
    list_ex (\<lambda>c. c \<noteq> CHR ''.'')
      (take (nat (rfind (CHR ''.'') p - (rfind (CHR ''/'') p + 1)))
         (drop (nat (rfind (CHR ''/'') p + 1)) p))")
  case True
  then have "0 \<le> rfind (CHR ''.'') p"
    using rfind_ge [of "CHR ''/''" p] by linarith
  from rfind_index [OF this]
  have "hd (drop (nat (rfind (CHR ''.'') p)) p) = CHR ''.''"
    by (simp add: hd_drop_conv_nth)
  moreover from True
  have "splitext p = (take (nat (rfind (CHR ''.'') p)) p, drop (nat (rfind (CHR ''.'') p)) p)"
    unfolding splitext_def Let_def by (rule if_P)
  ultimately show ?thesis
    by simp
next
  case False
  then have "splitext p = (p, [])"
    unfolding splitext_def Let_def by (rule if_not_P)
  then show ?thesis
    by simp
qed

lemma output_name_not_input: "output_name (fst (splitext p)) k \<noteq> p"
proof
  assume "output_name (fst (splitext p)) k = p"
  then have "fst (splitext p) @ (''_part'' @ str_nat k @ ''.ics'') =
             fst (splitext p) @ snd (splitext p)"
    using splitext_parts [of p] by (simp add: output_name_def)
  then have "snd (splitext p) = ''_part'' @ str_nat k @ ''.ics''"
    by simp
  with splitext_parts [of p] show False
    by simp
qed

lemma process_event_untouched:
  "untouched files st \<Longrightarrow>
   untouched files (process_event to_ical ps base max_size events event st)"
  by (simp add: untouched_def process_event_def write_file_def Let_def)

lemma fold_process_event_untouched:
  "untouched files st \<Longrightarrow>
   untouched files (fold (process_event to_ical ps base max_size events) xs st)"
  by (induction xs arbitrary: st) (simp_all add: process_event_untouched)

lemma flush_remaining_untouched:
  "untouched files st \<Longrightarrow> untouched files (flush_remaining to_ical ps base st)"
  by (simp add: untouched_def flush_remaining_def write_file_def)

lemma split_events_untouched:
  "untouched files (split_events to_ical ps base max_size events files)"
  unfolding split_events_def
  by (intro flush_remaining_untouched fold_process_event_untouched) (simp add: untouched_def)

lemma split_calendar_disk:
  assumes "n \<notin> fst ` set (files_created (split_calendar to_ical input_file max_size cal files))"
  shows "disk (split_calendar to_ical input_file max_size cal files) n = files n"
proof (cases "filter (\<lambda>comp. name comp = ''VEVENT'') (walk cal) = []")
  case True
  then show ?thesis
    by (simp add: split_calendar_def)
next
  case False
  show ?thesis
  proof (cases "sort_events (filter (\<lambda>comp. name comp = ''VEVENT'') (walk cal))")
    case (Inl err)
    with False show ?thesis
      by (simp add: split_calendar_def)
  next
    case (Inr sorted_events)
    let ?st = "split_events to_ical (cal_properties_of cal) (fst (splitext input_file))
                 max_size sorted_events files"
    from False Inr
    have "files_created (split_calendar to_ical input_file max_size cal files) = created ?st"
      and d: "disk (split_calendar to_ical input_file max_size cal files) = fs ?st"
      by (simp_all add: split_calendar_def Let_def)
    with assms have "n \<notin> fst ` set (created ?st)"
      by simp
    moreover have "untouched files ?st"
      by (rule split_events_untouched)
    ultimately have "fs ?st n = files n"
      unfolding untouched_def by blast
    with d show ?thesis
      by simp
  qed
qed

lemma split_calendar_keeps_input:
  "disk (split_calendar to_ical input_file max_size cal files) input_file = files input_file"
proof (rule split_calendar_disk)
  let ?out = "files_created (split_calendar to_ical input_file max_size cal files)"
  have names: "map fst ?out =
               map (output_name (fst (splitext input_file))) [1..<Suc (length ?out)]"
    using split_calendar_inv [of to_ical cal input_file max_size files]
    unfolding files_inv_def by blast
  show "input_file \<notin> fst ` set ?out"
  proof
    assume "input_file \<in> fst ` set ?out"
    then have "input_file \<in> set (map fst ?out)"
      by simp
    then have "input_file \<in> set (map (output_name (fst (splitext input_file)))
                                   [1..<Suc (length ?out)])"
      unfolding names .
    then obtain k where "input_file = output_name (fst (splitext input_file)) k"
      by (auto simp del: upt_Suc)
    with output_name_not_input [of input_file k] show False
      by simp
  qed
qed

lemma split_ics_file_keeps_input:
  "disk (split_ics_file from_ical to_ical input_file max_size_mb files) input_file =
   files input_file"
  by (simp add: split_ics_file_def split_calendar_keeps_input split: option.splits sum.splits)

text \<open>
  No output name is the input path, so a second run on the file system the first run left
  reads the same bytes and writes the same files again.
\<close>

lemma split_rerun:
  "result (split_ics_file from_ical to_ical input_file max_size_mb
             (disk (split_ics_file from_ical to_ical input_file max_size_mb files))) =
   result (split_ics_file from_ical to_ical input_file max_size_mb files) \<and>
   files_created (split_ics_file from_ical to_ical input_file max_size_mb
             (disk (split_ics_file from_ical to_ical input_file max_size_mb files))) =
   files_created (split_ics_file from_ical to_ical input_file max_size_mb files)"
  by (rule split_ics_file_any_files) (rule split_ics_file_keeps_input)

section \<open>The claims\<close>

text \<open>
  Claim C5. The sort key of an event comes from the first of \<^verbatim>\<open>DTSTART\<close>, \<^verbatim>\<open>DTSTAMP\<close>,
  \<^verbatim>\<open>CREATED\<close> that the event holds, in that order, and later fields are not looked at. A
  plain date is combined with midnight; a datetime gives its wall-clock reading whatever its
  \<^verbatim>\<open>tzinfo\<close>; an event with none of the three fields gets \<^verbatim>\<open>datetime.min\<close>, which is below
  every date of the calendar (year, month and day at least 1). The function reads the event
  only: in the model it is a function of the event and nothing else.
\<close>
theorem get_event_date_priority:
  "get_event_date event =
     (case map_of (props event) ''DTSTART'' of
        Some v \<Rightarrow> date_of_payload v
      | None \<Rightarrow>
          (case map_of (props event) ''DTSTAMP'' of
             Some v \<Rightarrow> date_of_payload v
           | None \<Rightarrow>
               (case map_of (props event) ''CREATED'' of
                  Some v \<Rightarrow> date_of_payload v
                | None \<Rightarrow> Inr datetime_min)))
   \<and> date_of_payload (vDDDTypes (Date d)) = Inr (d, (0, 0, 0, 0))
   \<and> date_of_payload (vDDDTypes (DateTime wall tz)) = Inr wall
   \<and> datetime_min \<le> ((Suc y, Suc m, Suc dd), t)"
  by (auto simp: get_event_date_def contains_def date_of_payload_def time_min_def datetime_min_def
      less_eq_prod_def split: option.splits)

theorem get_event_date_priority_witness:
  "get_event_date ev_a = Inr ((2024, 1, 2), (0, 0, 0, 0))"
  using get_event_date_priority [of ev_a "(2024, 1, 2)"]
  by (simp add: ev_a_def)

text \<open>
  Claim C7 as stated fails: line 48 runs before the input is read, and for a limit from
  which it cannot compute the effective limit the run ends with the error of line 48, not
  with the no-events outcome. With the limit \<^verbatim>\<open>inf\<close> and a calendar without events the result
  is OverflowError.
\<close>

theorem no_events_counterexample:
  "result (split_ics_file sample_from_ical to_ical_plain ''cal/none.ics'' PosInf sample_files) =
   Inl OverflowError"
  by (simp add: split_ics_file_def max_size_of_def)

text \<open>
  Claim C7, amended. When the input parses and holds no \<^verbatim>\<open>VEVENT\<close>, the run writes no
  file and leaves the file system as it was; it returns normally with the no-events outcome
  for every limit from which line 48 computes an effective limit (a finite limit whose
  byte count stays within a double), and ends with the error of line 48 for any other
  limit.
\<close>

theorem no_events_no_files:
  assumes "files input_file = Some bytes"
    and "from_ical bytes = Inr cal"
    and "filter (\<lambda>comp. name comp = ''VEVENT'') (walk cal) = []"
  shows "split_ics_file from_ical to_ical input_file max_size_mb files =
         \<lparr>result = (case max_size_of max_size_mb of
                      Inl err \<Rightarrow> Inl err
                    | Inr max_size \<Rightarrow> Inr NoEventsFound),
          disk = files, files_created = []\<rparr>"
  using assms by (simp add: split_ics_file_def split_calendar_def split: sum.splits)

theorem no_events_no_files_witness:
  "split_ics_file sample_from_ical to_ical_plain ''cal/none.ics'' (Finite 1) sample_files =
   \<lparr>result = Inr NoEventsFound, disk = sample_files, files_created = []\<rparr>"
proof -
  have "filter (\<lambda>comp. name comp = ''VEVENT'') (walk no_events_cal) = []"
    by (simp add: no_events_cal_def)
  from no_events_no_files [where files = sample_files and input_file = "''cal/none.ics''"
      and from_ical = sample_from_ical and to_ical = to_ical_plain
      and max_size_mb = "Finite 1", OF sample_lookup(4) sample_parse(4) this]
  show ?thesis
    unfolding sample_max_sizes by simp
qed

text \<open>
  Claim C8 as stated fails: for a limit from which line 48 cannot compute the effective
  limit the run ends with the error of line 48 before the input is read, not with a parse
  error. With the limit \<^verbatim>\<open>inf\<close> and an input that does not parse the result is
  OverflowError, where the parser's error would be MalformedDocument.
\<close>

theorem parse_error_counterexample:
  "result (split_ics_file sample_from_ical to_ical_plain ''cal/bad.ics'' PosInf sample_files) =
   Inl OverflowError"
  by (simp add: split_ics_file_def max_size_of_def)

text \<open>
  Claim C8, amended. When the parser rejects the input bytes, the run fails, no file has
  been written and the file system is unchanged; the error is the parser's for every limit
  from which line 48 computes an effective limit (a finite limit whose byte count stays
  within a double), and the error of line 48 for any other limit.
\<close>

theorem parse_error_no_files:
  assumes "files input_file = Some bytes"
    and "from_ical bytes = Inl err"
  shows "split_ics_file from_ical to_ical input_file max_size_mb files =
         \<lparr>result = Inl (case max_size_of max_size_mb of
                           Inl err48 \<Rightarrow> err48
                         | Inr max_size \<Rightarrow> err),
          disk = files, files_created = []\<rparr>"
  using assms by (simp add: split_ics_file_def split: sum.splits)

theorem parse_error_no_files_witness:
  "split_ics_file sample_from_ical to_ical_plain ''cal/bad.ics'' (Finite 1) sample_files =
   \<lparr>result = Inl (MalformedDocument ''Content line could not be parsed into parts''),
    disk = sample_files, files_created = []\<rparr>"
  using parse_error_no_files [where files = sample_files and input_file = "''cal/bad.ics''"
      and from_ical = sample_from_ical and to_ical = to_ical_plain
      and max_size_mb = "Finite 1", OF sample_lookup(5) sample_parse(5)]
  unfolding sample_max_sizes by simp

text \<open>
  Claim C10. Every file written holds at least one event, and nothing but events: no batch
  is empty when it is written, at a write inside the loop or at the final flush.
\<close>
theorem every_file_has_an_event:
  "\<forall>nd \<in> set (files_created (split_ics_file from_ical to_ical input_file max_size_mb files)).
     subcomponents (snd nd) \<noteq> [] \<and> (\<forall>e \<in> set (subcomponents (snd nd)). name e = ''VEVENT'')"
proof (rule split_ics_file_cases [of from_ical to_ical input_file max_size_mb files])
  assume "files_created (split_ics_file from_ical to_ical input_file max_size_mb files) = []"
  then show ?thesis by simp
next
  fix bytes cal max_size
  assume "split_ics_file from_ical to_ical input_file max_size_mb files =
          split_calendar to_ical input_file max_size cal files"
  then show ?thesis
    using split_calendar_inv [of to_ical cal input_file max_size files]
    by (auto simp: files_inv_def batch_ok_def)
qed

theorem every_file_has_an_event_witness:
  "subcomponents (snd (files_created
     (split_ics_file sample_from_ical to_ical_plain ''cal/three.ics'' (Finite 0.000171) sample_files) ! 0))
     \<noteq> []
   \<and> name (hd (subcomponents (snd (files_created
     (split_ics_file sample_from_ical to_ical_plain ''cal/three.ics'' (Finite 0.000171) sample_files) ! 1))))
     = ''VEVENT''"
  using every_file_has_an_event
    [of sample_from_ical to_ical_plain "''cal/three.ics''" "Finite 0.000171" sample_files]
  unfolding three_run by simp

text \<open>
  Claim C6. Every document written carries, of \<^verbatim>\<open>VERSION\<close>, \<^verbatim>\<open>PRODID\<close>, \<^verbatim>\<open>CALSCALE\<close> and
  \<^verbatim>\<open>METHOD\<close>, exactly those the input calendar holds, with the input's values, and no other
  top-level property; the property list is the same in every file.
\<close>
theorem replicated_properties:
  assumes "files input_file = Some bytes" and "from_ical bytes = Inr cal"
  shows "\<forall>nd \<in> set (files_created (split_ics_file from_ical to_ical input_file max_size_mb files)).
           props (snd nd) = cal_properties_of cal \<and>
           (\<forall>attr. map_of (props (snd nd)) attr =
              (if attr \<in> {''VERSION'', ''PRODID'', ''CALSCALE'', ''METHOD''}
               then map_of (props cal) attr else None))"
proof (cases "max_size_of max_size_mb")
  case (Inl err)
  then show ?thesis
    by (simp add: split_ics_file_def)
next
  case (Inr max_size)
  with assms
  have eq: "split_ics_file from_ical to_ical input_file max_size_mb files =
            split_calendar to_ical input_file max_size cal files"
    by (simp add: split_ics_file_def)
  have "props (snd nd) = cal_properties_of cal"
    if "nd \<in> set (files_created (split_calendar to_ical input_file max_size cal files))" for nd
  proof -
    from that split_calendar_inv [of to_ical cal input_file max_size files]
    have "snd nd = create_calendar_with_events (cal_properties_of cal) (subcomponents (snd nd))"
      by (simp add: files_inv_def)
    then have "props (snd nd) =
               props (Component ''VCALENDAR'' (cal_properties_of cal) (subcomponents (snd nd)))"
      by (simp add: create_calendar_with_events_eq)
    then show ?thesis by simp
  qed
  then show ?thesis
    unfolding eq by (simp add: map_of_cal_properties_of)
qed

theorem replicated_properties_witness:
  "map_of (props (snd (files_created
     (split_ics_file sample_from_ical to_ical_plain ''cal/three.ics'' (Finite 0.000171) sample_files) ! 0)))
     ''VERSION'' = Some (vText ''2.0'')
   \<and> map_of (props (snd (files_created
     (split_ics_file sample_from_ical to_ical_plain ''cal/three.ics'' (Finite 0.000171) sample_files) ! 1)))
     ''PRODID'' = None"
  using replicated_properties [where files = sample_files and input_file = "''cal/three.ics''"
      and from_ical = sample_from_ical and to_ical = to_ical_plain and max_size_mb = "Finite 0.000171",
      OF sample_lookup(1) sample_parse(1)]
  unfolding three_run by (simp add: three_events_cal_def)

text \<open>
  Claim C2 as stated fails. With a limit of 0.00009 MB (94.37 bytes, effective limit 89)
  each of the two sample events is written alone, in a file of 100 bytes, over the limit,
  while the event's own serialisation is 55 bytes, under it: the size the loop measures is
  that of the whole one-event document, calendar wrapper and top-level properties
  included.
\<close>

theorem spec_size_bound_counterexample:
  "\<not> spec_size_bound to_ical_plain (limit_bytes 0.00009)
       (snd (files_created
          (split_ics_file sample_from_ical to_ical_plain ''cal/two.txt'' (Finite 0.00009)
             sample_files) ! 0))"
  unfolding two_run_singles
  by (simp add: spec_size_bound_def limit_bytes_def sample_sizes del: to_ical_plain.simps)

text \<open>
  Claim C2, amended. Every file written is at most the configured limit in bytes, unless it
  holds exactly one event and the serialisation of that one-event document (calendar
  wrapper, top-level properties and the event, the size the loop measures) is above the
  limit; the event's own serialisation may then be below the limit. The limit is
  \<open>limit_bytes\<close>; for a limit that is not finite no file is written at all.
\<close>

theorem size_bound:
  "(\<forall>nd \<in> set (files_created (split_ics_file from_ical to_ical input_file (Finite x) files)).
      real (length (to_ical (snd nd))) \<le> limit_bytes x \<or>
      (\<exists>e. subcomponents (snd nd) = [e] \<and>
           limit_bytes x <
             real (length (to_ical (create_calendar_with_events (props (snd nd)) [e])))))
   \<and> files_created (split_ics_file from_ical to_ical input_file PosInf files) = []
   \<and> files_created (split_ics_file from_ical to_ical input_file NegInf files) = []
   \<and> files_created (split_ics_file from_ical to_ical input_file NaN files) = []"
proof -
  have finite: "\<forall>nd \<in> set (files_created
        (split_ics_file from_ical to_ical input_file (Finite x) files)).
      real (length (to_ical (snd nd))) \<le> limit_bytes x \<or>
      (\<exists>e. subcomponents (snd nd) = [e] \<and>
           limit_bytes x <
             real (length (to_ical (create_calendar_with_events (props (snd nd)) [e]))))"
  proof (rule split_ics_file_cases [of from_ical to_ical input_file "Finite x" files])
    assume "files_created (split_ics_file from_ical to_ical input_file (Finite x) files) = []"
    then show ?thesis by simp
  next
    fix bytes cal max_size
    assume m: "max_size_of (Finite x) = Inr max_size"
      and eq: "split_ics_file from_ical to_ical input_file (Finite x) files =
               split_calendar to_ical input_file max_size cal files"
    show ?thesis
      unfolding eq
    proof
      fix nd
      assume "nd \<in> set (files_created (split_calendar to_ical input_file max_size cal files))"
      with split_calendar_inv [of to_ical cal input_file max_size files]
      have doc: "snd nd =
                 create_calendar_with_events (cal_properties_of cal) (subcomponents (snd nd))"
        and ok: "batch_ok to_ical (cal_properties_of cal) max_size
                   {e \<in> set (walk cal). name e = ''VEVENT''} (subcomponents (snd nd))"
        by (simp_all add: files_inv_def)
      from doc have ps: "props (snd nd) = cal_properties_of cal"
        by (metis component.sel(2) create_calendar_with_events_eq)
      show "real (length (to_ical (snd nd))) \<le> limit_bytes x \<or>
            (\<exists>e. subcomponents (snd nd) = [e] \<and>
               limit_bytes x <
                 real (length (to_ical (create_calendar_with_events (props (snd nd)) [e]))))"
      proof (cases "real (length (to_ical (snd nd))) \<le> limit_bytes x")
        case True
        then show ?thesis by simp
      next
        case False
        then have "\<not> int (length (to_ical (snd nd))) < max_size"
          using below_max_size_within_limit [OF m] by blast
        with ok doc have "length (subcomponents (snd nd)) = 1"
          by (simp add: batch_ok_def)
        then obtain e where e: "subcomponents (snd nd) = [e]"
          by (cases "subcomponents (snd nd)") auto
        with doc ps have "snd nd = create_calendar_with_events (props (snd nd)) [e]"
          by simp
        with False e show ?thesis
          by (metis not_le)
      qed
    qed
  qed
  show ?thesis
    using finite by (simp add: split_ics_file_def max_size_of_def)
qed

theorem size_bound_witness:
  "real (length (to_ical_plain (snd (files_created
     (split_ics_file sample_from_ical to_ical_plain ''cal/three.ics'' (Finite 0.000171)
        sample_files) ! 0))))
   \<le> limit_bytes 0.000171"
  using size_bound
    [of sample_from_ical to_ical_plain "''cal/three.ics''" "0.000171" sample_files]
  unfolding three_run by simp

text \<open>
  Claim C3, amended. The k-th file written (k from 1) is named by the input path with its
  last extension removed and its directory kept, followed by \<^verbatim>\<open>_part\<close>, the decimal part
  counter k and the fixed extension \<^verbatim>\<open>.ics\<close>; the counter starts at 1 and goes up by one
  with every file written, whichever branch wrote it.
\<close>
theorem output_file_names:
  "map fst (files_created (split_ics_file from_ical to_ical input_file max_size_mb files)) =
   map (\<lambda>k. fst (splitext input_file) @ ''_part'' @ str_nat k @ ''.ics'')
     [1..<Suc (length (files_created (split_ics_file from_ical to_ical input_file max_size_mb files)))]"
proof (rule split_ics_file_cases [of from_ical to_ical input_file max_size_mb files])
  assume "files_created (split_ics_file from_ical to_ical input_file max_size_mb files) = []"
  then show ?thesis by simp
next
  fix bytes cal max_size
  assume "split_ics_file from_ical to_ical input_file max_size_mb files =
          split_calendar to_ical input_file max_size cal files"
  then show ?thesis
    using split_calendar_inv [of to_ical cal input_file max_size files]
    by (simp add: files_inv_def output_name_def del: upt_Suc)
qed

theorem output_file_names_witness:
  "map fst (files_created
     (split_ics_file sample_from_ical to_ical_plain ''cal/two.txt'' (Finite 0.00012) sample_files)) =
   [''cal/two_part1.ics'']"
proof -
  have len: "length (files_created
      (split_ics_file sample_from_ical to_ical_plain ''cal/two.txt'' (Finite 0.00012) sample_files)) = 1"
    unfolding two_run by simp
  show ?thesis
    using output_file_names
      [of sample_from_ical to_ical_plain "''cal/two.txt''" "Finite 0.00012" sample_files]
    unfolding len sample_bases by (simp add: str_nat.simps)
qed

text \<open>
  Claim C3 as stated fails: for the input \<^verbatim>\<open>cal/two.txt\<close> the file written is
  \<^verbatim>\<open>cal/two_part1.ics\<close>, with the directory kept and the extension \<^verbatim>\<open>.ics\<close>, where the
  specification's rule gives \<^verbatim>\<open>two_part1.txt\<close>.
\<close>
theorem spec_output_name_counterexample:
  "map fst (files_created
     (split_ics_file sample_from_ical to_ical_plain ''cal/two.txt'' (Finite 0.00012) sample_files)) \<noteq>
   map (spec_output_name ''cal/two.txt'')
     [1..<Suc (length (files_created
        (split_ics_file sample_from_ical to_ical_plain ''cal/two.txt'' (Finite 0.00012) sample_files)))]"
  unfolding two_run
  by (simp add: spec_output_name_def basename_def splitext_def str_nat.simps)

text \<open>
  Claim C9. Two runs with the same parser, serialiser, input path and limit, on file systems
  that hold the same bytes under the input path, end with the same result and write the same
  files: the same number of files, with the same names and the same bytes, in the same
  order. What else the file systems hold does not matter. By \<open>split_rerun\<close> a run leaves
  the bytes under its input path as they were, so the second of two runs in a row is such
  a run.
\<close>
theorem split_deterministic:
  assumes "files_a input_file = files_b input_file"
  shows "result (split_ics_file from_ical to_ical input_file max_size_mb files_a) =
         result (split_ics_file from_ical to_ical input_file max_size_mb files_b) \<and>
         map (\<lambda>nd. (fst nd, to_ical (snd nd)))
           (files_created (split_ics_file from_ical to_ical input_file max_size_mb files_a)) =
         map (\<lambda>nd. (fst nd, to_ical (snd nd)))
           (files_created (split_ics_file from_ical to_ical input_file max_size_mb files_b))"
  using assms split_calendar_any_files [of to_ical input_file _ _ files_a files_b]
  by (simp add: split_ics_file_def split: option.splits sum.splits)

theorem split_deterministic_witness:
  "map (\<lambda>nd. (fst nd, length (to_ical_plain (snd nd))))
     (files_created (split_ics_file sample_from_ical to_ical_plain ''cal/three.ics'' (Finite 0.000171)
        (sample_files(''cal/three_part1.ics'' \<mapsto> ''stale'')))) =
   [(''cal/three_part1.ics'', 155), (''cal/three_part2.ics'', 100)]"
proof -
  have same: "sample_files ''cal/three.ics'' =
              (sample_files(''cal/three_part1.ics'' \<mapsto> ''stale'')) ''cal/three.ics''"
    by simp
  have written:
    "map (\<lambda>nd. (fst nd, to_ical_plain (snd nd)))
       (files_created (split_ics_file sample_from_ical to_ical_plain ''cal/three.ics'' (Finite 0.000171)
          (sample_files(''cal/three_part1.ics'' \<mapsto> ''stale'')))) =
     [(''cal/three_part1.ics'',
       to_ical_plain (Component ''VCALENDAR'' [(''VERSION'', vText ''2.0'')] [ev_b, ev_a])),
      (''cal/three_part2.ics'',
       to_ical_plain (Component ''VCALENDAR'' [(''VERSION'', vText ''2.0'')] [ev_c]))]"
    using split_deterministic [where files_a = sample_files
        and files_b = "sample_files(''cal/three_part1.ics'' \<mapsto> ''stale'')"
        and input_file = "''cal/three.ics''" and from_ical = sample_from_ical
        and to_ical = to_ical_plain and max_size_mb = "Finite 0.000171", OF same]
    unfolding three_run
    by (simp del: to_ical_plain.simps)
  have "map (\<lambda>nd. (fst nd, length (to_ical_plain (snd nd))))
          (files_created (split_ics_file sample_from_ical to_ical_plain ''cal/three.ics'' (Finite 0.000171)
             (sample_files(''cal/three_part1.ics'' \<mapsto> ''stale'')))) =
        map (\<lambda>p. (fst p, length (snd p)))
          (map (\<lambda>nd. (fst nd, to_ical_plain (snd nd)))
            (files_created (split_ics_file sample_from_ical to_ical_plain ''cal/three.ics'' (Finite 0.000171)
               (sample_files(''cal/three_part1.ics'' \<mapsto> ''stale'')))))"
    by (simp add: comp_def del: to_ical_plain.simps)
  also have "\<dots> = [(''cal/three_part1.ics'', 155), (''cal/three_part2.ics'', 100)]"
    unfolding written by (simp add: sample_sizes del: to_ical_plain.simps)
  finally show ?thesis .
qed

text \<open>
  Claim C1 fails on the code. The sample calendar of two events sorts to \<open>[ev_b, ev_a]\<close>; with
  an effective limit of 119 bytes the document of both events (155 bytes) is over the limit
  and the document of \<open>ev_b\<close> alone (100 bytes) is under it. The run writes one file holding
  \<open>ev_b\<close>, and \<open>ev_a\<close> is in no file: after the \<^verbatim>\<open>pop\<close> of line 94 the test of line 106 sees a
  batch of length 1 and resets the batch to empty instead of \<^verbatim>\<open>[event]\<close>.
\<close>
theorem overflowing_pair_drops_event:
  "sort_events (filter (\<lambda>comp. name comp = ''VEVENT'') (walk two_events_cal)) = Inr [ev_b, ev_a]
   \<and> concat (map (\<lambda>nd. subcomponents (snd nd))
        (files_created
           (split_ics_file sample_from_ical to_ical_plain ''cal/two.txt'' (Finite 0.00012) sample_files)))
     = [ev_b]"
  unfolding two_run sample_sorted by simp

text \<open>
  Claim C4 fails on the code. In a calendar that holds the same event twice, the first
  position of the sorted list is not the last one and the batch is far below the effective
  limit of 996147 bytes, yet a file is written at that step: \<^verbatim>\<open>event == events[-1]\<close>
  compares the events by value. The run writes two files of one event each.
\<close>
theorem duplicate_event_flushes_early:
  "max_size_of (Finite 1) = Inr 996147
   \<and> int (length (to_ical_plain
      (create_calendar_with_events (cal_properties_of twice_cal) [ev_a]))) < 996147
   \<and> created (process_event to_ical_plain (cal_properties_of twice_cal) ''cal/twice''
        996147 [ev_a, ev_a] ev_a
        \<lparr>current_events = [], file_counter = 1, fs = sample_files, created = []\<rparr>) =
     [(''cal/twice_part1.ics'', Component ''VCALENDAR'' [(''VERSION'', vText ''2.0'')] [ev_a])]
   \<and> map (\<lambda>nd. (fst nd, subcomponents (snd nd)))
       (files_created
          (split_ics_file sample_from_ical to_ical_plain ''cal/twice.ics'' (Finite 1)
             sample_files)) =
     [(''cal/twice_part1.ics'', [ev_a]), (''cal/twice_part2.ics'', [ev_a])]"
  unfolding twice_run sample_props sample_max_sizes
  by (simp add: process_event_def write_file_def create_calendar_with_events_eq output_name_def
      str_nat.simps sample_sizes Let_def del: to_ical_plain.simps)

end
